theory Spec2Isabelle
  imports Main "HOL-Library.Word"
begin

section \<open>The CVS detection option (src/ips\_options/ips\_cvs.cc)\<close>

subsection \<open>Bytes, pointers and constants\<close>

text \<open>
  A \<open>uint8_t\<close> is a \<open>char\<close> (HOL's 8-bit character), so that payloads can be written
  as string literals. A pointer into a buffer is modelled by the bytes that can be read
  from it up to the end of the enclosing range; the null pointer is \<open>None\<close>.
\<close>

type_synonym uint8_t = char

definition CVS_COMMAND_DELIMITER :: uint8_t where
  "CVS_COMMAND_DELIMITER = CHR 0x0A"

definition CVS_COMMAND_SEPARATOR :: uint8_t where
  "CVS_COMMAND_SEPARATOR = CHR '' ''"

definition CVS_NO_ALERT :: int where "CVS_NO_ALERT = 0"
definition CVS_ALERT :: int where "CVS_ALERT = 1"

definition CVS_ENTRY_STR :: "uint8_t list" where "CVS_ENTRY_STR = ''Entry''"
definition CVS_ENTRY_VALID :: int where "CVS_ENTRY_VALID = 0"
definition CVS_ENTRY_INVALID :: int where "CVS_ENTRY_INVALID = 1"

text \<open>The enum \<open>CvsTypes\<close>, by its integer values; a zeroed option holds 0.\<close>

type_synonym CvsTypes = int

definition CVS_INVALID_ENTRY :: CvsTypes where "CVS_INVALID_ENTRY = 1"
definition CVS_END_OF_ENUM :: CvsTypes where "CVS_END_OF_ENUM = 2"

record CvsRuleOption =
  type :: CvsTypes

text \<open>
  \<open>CvsCommand\<close>: \<open>cmd_str\<close> and \<open>cmd_arg\<close> are pointers into the line (the bytes from
  the pointer to the end of the line), with the lengths the code stores beside them.
\<close>

record CvsCommand =
  cmd_str :: "uint8_t list option"
  cmd_str_len :: int
  cmd_arg :: "uint8_t list option"
  cmd_arg_len :: int

subsection \<open>Library functions\<close>

text \<open>
  \<open>memchr(p, c, n)\<close> over the \<open>n\<close> bytes \<open>p\<close>: the offset of the first byte equal to
  \<open>c\<close>, or \<open>None\<close> for the null pointer it returns when there is none.
\<close>

fun memchr :: "uint8_t list \<Rightarrow> uint8_t \<Rightarrow> nat option" where
  "memchr [] c = None"
| "memchr (b # bs) c = (if b = c then Some 0 else map_option Suc (memchr bs c))"

text \<open>\<open>memcmp(a, b, n)\<close>: 0 when the first \<open>n\<close> bytes agree; the sign of a nonzero
  result is not used by the callers, so it is 1 here.\<close>

definition memcmp :: "uint8_t list \<Rightarrow> uint8_t list \<Rightarrow> nat \<Rightarrow> int" where
  "memcmp a b n = (if take n a = take n b then 0 else 1)"

subsection \<open>CvsGetEOL, CvsGetCommand, CvsCmdCompare\<close>

text \<open>
  \<open>CvsGetEOL(ptr, end, &eol, &eolm)\<close>: the argument is the range from \<open>ptr\<close> to \<open>end\<close>;
  the result is \<open>(eol, eolm)\<close> as offsets from \<open>ptr\<close>, where \<open>end\<close> is the offset
  \<open>length ptr\<close>.
\<close>

definition CvsGetEOL :: "uint8_t list \<Rightarrow> nat \<times> nat" where
  "CvsGetEOL ptr =
     (case memchr ptr CVS_COMMAND_DELIMITER of
        None \<Rightarrow> (length ptr, length ptr)
      | Some eolm \<Rightarrow> (eolm + 1, eolm))"

text \<open>
  \<open>CvsGetCommand(line, end, cmd)\<close>: the argument is the range from \<open>line\<close> to \<open>end\<close>, or
  \<open>None\<close> for a null \<open>line\<close>; the result is the structure written through \<open>cmd\<close>
  (which is never null at the only call).
\<close>

definition CvsGetCommand :: "uint8_t list option \<Rightarrow> CvsCommand" where
  "CvsGetCommand line =
     (case line of
        None \<Rightarrow> \<lparr>cmd_str = None, cmd_str_len = 0, cmd_arg = None, cmd_arg_len = 0\<rparr>
      | Some l \<Rightarrow>
          (case memchr l CVS_COMMAND_SEPARATOR of
             Some cmd_end \<Rightarrow>
               \<lparr>cmd_str = Some l, cmd_str_len = int cmd_end,
                cmd_arg = Some (drop (cmd_end + 1) l),
                cmd_arg_len = int (length l) - int cmd_end - 1\<rparr>
           | None \<Rightarrow>
               \<lparr>cmd_str = Some l, cmd_str_len = int (length l),
                cmd_arg = None, cmd_arg_len = 0\<rparr>))"

definition CvsCmdCompare :: "uint8_t list \<Rightarrow> uint8_t list \<Rightarrow> int \<Rightarrow> int" where
  "CvsCmdCompare cmd pkt_cmd pkt_cmd_len =
     (if pkt_cmd_len = int (length cmd) \<and> memcmp pkt_cmd cmd (nat pkt_cmd_len) = 0
      then 0 else 1)"

subsection \<open>CvsValidateEntry\<close>

text \<open>
  The loop of \<open>CvsValidateEntry\<close> over the range from \<open>entry_arg\<close> to \<open>end_arg\<close>, with
  the counter \<open>slashes\<close>: \<open>Inl r\<close> when the loop body returns \<open>r\<close>, \<open>Inr n\<close> when the
  loop is left (by its condition or by \<open>break\<close>) with \<open>slashes = n\<close>. The counter never
  exceeds the length of the range, which is at most 65535 at the only call.
\<close>

fun CvsValidateEntry_loop :: "uint8_t list \<Rightarrow> nat \<Rightarrow> int + nat" where
  "CvsValidateEntry_loop [] slashes = Inr slashes"
| "CvsValidateEntry_loop (b # bs) slashes =
     (if slashes = 3 \<and> b \<noteq> CHR ''/'' \<and> b \<noteq> CHR ''+'' then Inl CVS_ENTRY_INVALID
      else if b \<noteq> CHR ''/'' then
        (case memchr (b # bs) (CHR ''/'') of
           None \<Rightarrow> Inr slashes
         | Some i \<Rightarrow> CvsValidateEntry_loop (drop (i + 1) (b # bs)) (slashes + 1))
      else CvsValidateEntry_loop bs (slashes + 1))"

text \<open>
  \<open>CvsValidateEntry(entry_arg, end_arg)\<close>: the argument is the range between the two
  pointers, \<open>None\<close> when one of them is null (at the only call \<open>end_arg\<close> is
  \<open>entry_arg + cmd_arg_len\<close>, null exactly when \<open>entry_arg\<close> is).
\<close>

definition CvsValidateEntry :: "uint8_t list option \<Rightarrow> int" where
  "CvsValidateEntry arg =
     (case arg of
        None \<Rightarrow> CVS_ENTRY_VALID
      | Some entry_arg \<Rightarrow>
          (case CvsValidateEntry_loop entry_arg 0 of
             Inl r \<Rightarrow> r
           | Inr slashes \<Rightarrow> if slashes \<noteq> 5 then CVS_ENTRY_INVALID else CVS_ENTRY_VALID))"

subsection \<open>CvsDecode\<close>

text \<open>
  The loop of \<open>CvsDecode\<close> over the range from \<open>line\<close> to \<open>end\<close>. It is a partial
  function in the option monad: a loop that did not end would be the value \<open>None\<close>.
\<close>

partial_function (option) CvsDecode_loop :: "CvsRuleOption \<Rightarrow> uint8_t list \<Rightarrow> int option" where
  "CvsDecode_loop cvs_rule_option line =
     (if line = [] then Some CVS_NO_ALERT
      else
        (case CvsGetEOL line of (eol, eolm) \<Rightarrow>
          (case CvsGetCommand (Some (take eolm line)) of command \<Rightarrow>
            (case cmd_str command of
               None \<Rightarrow> Some CVS_NO_ALERT
             | Some pkt_cmd \<Rightarrow>
                 if type cvs_rule_option = CVS_INVALID_ENTRY
                    \<and> CvsCmdCompare CVS_ENTRY_STR pkt_cmd (cmd_str_len command) = 0
                    \<and> CvsValidateEntry
                         (map_option (take (nat (cmd_arg_len command))) (cmd_arg command))
                       = CVS_ENTRY_INVALID
                    \<and> eol < length line
                 then Some CVS_ALERT
                 else CvsDecode_loop cvs_rule_option (drop eol line)))))"

declare CvsDecode_loop.simps [code]

text \<open>
  \<open>CvsDecode(data, data_len, cvs_rule_option)\<close>: \<open>data\<close> points to at least \<open>data_len\<close>
  bytes, and \<open>end = data + data_len\<close>.
\<close>

definition CvsDecode :: "uint8_t list \<Rightarrow> 16 word \<Rightarrow> CvsRuleOption \<Rightarrow> int option" where
  "CvsDecode data data_len cvs_rule_option =
     CvsDecode_loop cvs_rule_option (take (unat data_len) data)"

subsection \<open>CvsOption::eval\<close>

text \<open>
  The part of \<open>Packet\<close> that \<open>eval\<close> reads: the pointer to the TCP header (only tested
  against null, so an opaque address), the payload pointer and the payload size.
\<close>

record Packet =
  tcph :: "nat option"
  data :: "uint8_t list option"
  dsize :: "16 word"

text \<open>Modelled from the spec: detection\_defines.h is not among the sources; the two
  results of an option are \<open>NoMatch\<close> and \<open>Match\<close>, two distinct integers.\<close>

definition DETECTION_OPTION_NO_MATCH :: int where "DETECTION_OPTION_NO_MATCH = 0"
definition DETECTION_OPTION_MATCH :: int where "DETECTION_OPTION_MATCH = 1"

text \<open>
  \<open>CvsOption::eval(p)\<close> for an option whose member \<open>config\<close> is the first argument. The
  test \<open>cvs_rule_option == NULL\<close> is on the address of that member and never holds. The
  result is \<open>None\<close> if the decoder does not return.
\<close>

definition CvsOption_eval :: "CvsRuleOption \<Rightarrow> Packet option \<Rightarrow> int option" where
  "CvsOption_eval config p =
     (case p of
        None \<Rightarrow> Some DETECTION_OPTION_NO_MATCH
      | Some pkt \<Rightarrow>
          if tcph pkt = None \<or> data pkt = None \<or> dsize pkt = 0
          then Some DETECTION_OPTION_NO_MATCH
          else
            (case data pkt of
               None \<Rightarrow> Some DETECTION_OPTION_NO_MATCH
             | Some d \<Rightarrow>
                 (case CvsDecode d (dsize pkt) config of
                    None \<Rightarrow> None
                  | Some ret \<Rightarrow>
                      Some (if ret = CVS_ALERT then DETECTION_OPTION_MATCH
                            else DETECTION_OPTION_NO_MATCH))))"

subsection \<open>The claims of the specification about the decoder, in its words\<close>

text \<open>
  The byte immediately following the \<open>k\<close>-th separator \<open>/\<close> of a range, if there is
  one (for \<open>k = 0\<close>: the first byte of the range).
\<close>

fun byte_after_sep :: "nat \<Rightarrow> uint8_t list \<Rightarrow> uint8_t option" where
  "byte_after_sep 0 bs = (case bs of [] \<Rightarrow> None | b # _ \<Rightarrow> Some b)"
| "byte_after_sep (Suc k) [] = None"
| "byte_after_sep (Suc k) (b # bs) =
     (if b = CHR ''/'' then byte_after_sep k bs else byte_after_sep (Suc k) bs)"

text \<open>The structural rule of the specification for an entry field.\<close>

definition spec_entry_shape :: "uint8_t list \<Rightarrow> bool" where
  "spec_entry_shape bs \<longleftrightarrow>
     count_list bs (CHR ''/'') = 5 \<and>
     (byte_after_sep 3 bs = Some (CHR ''/'') \<or> byte_after_sep 3 bs = Some (CHR ''+''))"

text \<open>Equality of command names up to the case of ASCII letters, as the specification
  words the comparison with \<open>Entry\<close>.\<close>

definition ascii_tolower :: "uint8_t \<Rightarrow> uint8_t" where
  "ascii_tolower c =
     (if 65 \<le> (of_char c :: nat) \<and> (of_char c :: nat) \<le> 90
      then char_of (of_char c + (32 :: nat)) else c)"

definition spec_caseless_eq :: "uint8_t list \<Rightarrow> uint8_t list \<Rightarrow> bool" where
  "spec_caseless_eq a b \<longleftrightarrow> map ascii_tolower a = map ascii_tolower b"

text \<open>
  Some line of the buffer satisfies \<open>P\<close> and at least one byte follows its delimiter:
  the buffer is \<open>pre @ ln @ delimiter # rest\<close>, where \<open>ln\<close> starts a line (\<open>pre\<close> is
  empty or ends with a delimiter), contains no delimiter, and \<open>rest\<close> is not empty.
\<close>

definition some_line_followed :: "(uint8_t list \<Rightarrow> bool) \<Rightarrow> uint8_t list \<Rightarrow> bool" where
  "some_line_followed P buf \<longleftrightarrow>
     (\<exists>pre ln rest.
        buf = pre @ ln @ CVS_COMMAND_DELIMITER # rest
        \<and> (pre = [] \<or> (\<exists>p. pre = p @ [CVS_COMMAND_DELIMITER]))
        \<and> CVS_COMMAND_DELIMITER \<notin> set ln
        \<and> rest \<noteq> []
        \<and> P ln)"

text \<open>
  A line that triggers the detection, in the words of the specification: the line is a
  command name, a separator and an argument, the name equals \<open>Entry\<close> up to case, and
  the argument validates as invalid.
\<close>

definition spec_invalid_entry_line :: "uint8_t list \<Rightarrow> bool" where
  "spec_invalid_entry_line ln \<longleftrightarrow>
     (\<exists>name arg. ln = name @ CVS_COMMAND_SEPARATOR # arg
            \<and> CVS_COMMAND_SEPARATOR \<notin> set name
            \<and> spec_caseless_eq name CVS_ENTRY_STR
            \<and> CvsValidateEntry (Some arg) = CVS_ENTRY_INVALID)"

text \<open>
  A line that triggers the detection, as the code decides it: the command name is
  \<open>Entry\<close> byte for byte, and the argument is present and validates as invalid.
\<close>

definition invalid_entry_line :: "uint8_t list \<Rightarrow> bool" where
  "invalid_entry_line ln \<longleftrightarrow>
     (\<exists>arg. ln = CVS_ENTRY_STR @ CVS_COMMAND_SEPARATOR # arg
            \<and> CvsValidateEntry (Some arg) = CVS_ENTRY_INVALID)"

text \<open>The test that the body of the loop of \<open>CvsDecode\<close> makes on the line \<open>l\<close>, apart
  from the option's type and from \<open>eol < end\<close>.\<close>

definition entry_test :: "uint8_t list \<Rightarrow> bool" where
  "entry_test l \<longleftrightarrow>
     (case CvsGetCommand (Some l) of command \<Rightarrow>
       (case cmd_str command of
          None \<Rightarrow> False
        | Some pkt_cmd \<Rightarrow>
            CvsCmdCompare CVS_ENTRY_STR pkt_cmd (cmd_str_len command) = 0
            \<and> CvsValidateEntry
                 (map_option (take (nat (cmd_arg_len command))) (cmd_arg command))
               = CVS_ENTRY_INVALID))"

section \<open>File processing (src/file\_api/libs/file\_lib.cc)\<close>

subsection \<open>Types\<close>

text \<open>
  A C \<open>int\<close> is a \<open>32 word\<close> read with \<open>sint\<close>; \<open>uint64_t\<close> is a \<open>64 word\<close>, whose
  arithmetic wraps.
\<close>

type_synonym c_int = "32 word"
type_synonym uint64_t = "64 word"
type_synonym uint32_t = "32 word"

text \<open>Modelled from the spec: file\_api.h is not among the sources. The kinds of
  processing are type identification and signature, and the code's \<open>switch\<close> has a
  default branch for any other kind.\<close>

datatype FileProcessType = SNORT_FILE_TYPE_ID | SNORT_FILE_SHA256 | SNORT_FILE_CAPTURE

text \<open>Modelled from the spec: the chunk position marker is one of Start, Middle, End and
  Whole (\<open>SNORT_FILE_FULL\<close>); the code's \<open>switch\<close> has a default branch for any other
  value.\<close>

datatype FilePosition =
  SNORT_FILE_POSITION_UNKNOWN | SNORT_FILE_START | SNORT_FILE_MIDDLE
  | SNORT_FILE_END | SNORT_FILE_FULL

text \<open>Modelled from the spec: the classification state is \<open>Continue\<close>, \<open>Unknown\<close> or an
  identified type; the two reserved identifiers are macros of file\_api.h, which is not
  among the sources.\<close>

datatype file_type =
  SNORT_FILE_TYPE_CONTINUE | SNORT_FILE_TYPE_UNKNOWN | Identified uint32_t

text \<open>
  Modelled from the spec: file\_config.h is not among the sources. The fields of
  \<open>FileConfig\<close> that file\_lib.cc reads are the two depths, here as the \<open>uint64_t\<close>
  values that the limiter assigns to \<open>max_depth\<close>. Its member function
  \<open>find_file_type_id\<close> takes the context, so it is an argument of \<open>file_type_id\<close>
  below rather than a field.
\<close>

record FileConfig =
  file_type_depth :: uint64_t
  file_signature_depth :: uint64_t

text \<open>
  Modelled from the spec: the SHA-256 library behind \<open>hash/hashes.h\<close> is not among the
  sources. A digest context is the record of what was done to it: whether
  \<open>SHA256_Init\<close> ran, the bytes fed by \<open>SHA256_Update\<close> in order, and whether
  \<open>SHA256_Final\<close> ran. The 32-byte digest is a function of that record, an argument of
  \<open>file_signature_sha256\<close> below.
\<close>

record SHA256_CTX =
  initialised :: bool
  absorbed :: "uint8_t list"
  finalised :: bool

text \<open>Modelled from the spec: \<open>SnortAlloc\<close> is declared in util.h, which is not among
  the sources. \<open>SnortAlloc(sizeof(SHA256CONTEXT))\<close> is a new digest context on which
  \<open>SHA256_Init\<close> has not run (an allocation failure is not modelled).\<close>

definition SnortAlloc_SHA256CONTEXT :: SHA256_CTX where
  "SnortAlloc_SHA256CONTEXT = \<lparr>initialised = False, absorbed = [], finalised = False\<rparr>"

text \<open>Modelled from the spec: the three operations of the library, an incremental
  digest. \<open>SHA256_Init\<close> starts a digest, \<open>SHA256_Update(c, data, len)\<close> feeds the
  first \<open>len\<close> bytes of \<open>data\<close>, and \<open>SHA256_Final(md, c)\<close> writes the digest of the
  context to \<open>md\<close>.\<close>

definition SHA256INIT :: "SHA256_CTX \<Rightarrow> SHA256_CTX" where
  "SHA256INIT c = \<lparr>initialised = True, absorbed = [], finalised = False\<rparr>"

definition SHA256UPDATE :: "SHA256_CTX \<Rightarrow> uint8_t list \<Rightarrow> c_int \<Rightarrow> SHA256_CTX" where
  "SHA256UPDATE c file_data data_size =
     c\<lparr>absorbed := absorbed c @ take (unat data_size) file_data\<rparr>"

definition SHA256FINAL ::
  "(SHA256_CTX \<Rightarrow> uint8_t list) \<Rightarrow> SHA256_CTX \<Rightarrow> uint8_t list \<times> SHA256_CTX" where
  "SHA256FINAL digest c = (digest c, c\<lparr>finalised := True\<rparr>)"

text \<open>
  Modelled from the spec: file\_lib.h is not among the sources. \<open>FileContext\<close> has the
  fields that file\_lib.cc uses; \<open>processed_bytes\<close> is an unsigned 64-bit count. The
  field \<open>file_type_id\<close> is named \<open>file_type_id_field\<close>, since the function of that name
  follows. Pointers are options; \<open>file_type_context\<close> is an opaque address.
\<close>

record FileContext =
  file_config :: "FileConfig option"
  processed_bytes :: uint64_t
  file_type_id_field :: file_type
  file_type_context :: "nat option"
  file_signature_context :: "SHA256_CTX option"
  sha256 :: "uint8_t list option"
  file_name :: "uint8_t list option"
  file_name_size :: uint32_t
  file_size :: uint64_t
  upload :: bool

datatype fault = NULL_DEREFERENCE

subsection \<open>get\_data\_size\_from\_depth\_limit\<close>

text \<open>
  The code after the \<open>switch\<close>, for the \<open>max_depth\<close> that the \<open>switch\<close> has chosen. The
  two comparisons and the clamp are on \<open>uint64_t\<close>: \<open>data_size\<close> is converted to
  \<open>uint64_t\<close> (sign-extended) for the sum, and the difference is converted back to
  \<open>int\<close> (truncated).
\<close>

definition depth_limit :: "uint64_t \<Rightarrow> uint64_t \<Rightarrow> c_int \<Rightarrow> c_int" where
  "depth_limit processed max_depth data_size =
     (if processed > max_depth then - 1
      else if processed + scast data_size > max_depth then ucast (max_depth - processed)
      else data_size)"

text \<open>
  \<open>get_data_size_from_depth_limit(context, type, data_size)\<close>, for a context that is
  not null (the function reads it at once). The parameter \<open>type\<close> of the source is
  \<open>process_type\<close> here, since \<open>type\<close> is the field of \<open>CvsRuleOption\<close>.
\<close>

definition get_data_size_from_depth_limit ::
  "FileContext \<Rightarrow> FileProcessType \<Rightarrow> c_int \<Rightarrow> c_int" where
  "get_data_size_from_depth_limit context process_type data_size =
     (case file_config context of
        None \<Rightarrow> data_size
      | Some cfg \<Rightarrow>
          (case process_type of
             SNORT_FILE_TYPE_ID \<Rightarrow>
               depth_limit (processed_bytes context) (file_type_depth cfg) data_size
           | SNORT_FILE_SHA256 \<Rightarrow>
               depth_limit (processed_bytes context) (file_signature_depth cfg) data_size
           | _ \<Rightarrow> data_size))"

subsection \<open>file\_type\_id\<close>

text \<open>
  \<open>file_config->find_file_type_id(file_data, data_size, context)\<close> followed by the
  assignment of its result to \<open>context->file_type_id\<close>. The classifier may write to the
  context it is given, so it returns the context beside its result. The local
  \<open>file_config\<close> was read from the context on entry; the call through a null
  \<open>file_config\<close> is a fault.
\<close>

type_synonym classifier =
  "uint8_t list \<Rightarrow> c_int \<Rightarrow> FileContext \<Rightarrow> file_type \<times> FileContext"

definition call_find_file_type_id ::
  "classifier \<Rightarrow> FileConfig option \<Rightarrow> uint8_t list \<Rightarrow> c_int \<Rightarrow> FileContext
   \<Rightarrow> fault + FileContext" where
  "call_find_file_type_id find_file_type_id cfg file_data data_size context =
     (case cfg of
        None \<Rightarrow> Inl NULL_DEREFERENCE
      | Some _ \<Rightarrow>
          (case find_file_type_id file_data data_size context of
             (r, context') \<Rightarrow> Inr (context'\<lparr>file_type_id_field := r\<rparr>)))"

text \<open>The step of the End and Whole cases after the classifier: \<open>Continue\<close> becomes
  \<open>Unknown\<close>.\<close>

definition continue_to_unknown :: "fault + FileContext \<Rightarrow> fault + FileContext" where
  "continue_to_unknown r =
     (case r of
        Inl f \<Rightarrow> Inl f
      | Inr context \<Rightarrow>
          if file_type_id_field context = SNORT_FILE_TYPE_CONTINUE
          then Inr (context\<lparr>file_type_id_field := SNORT_FILE_TYPE_UNKNOWN\<rparr>)
          else Inr context)"

text \<open>
  \<open>file_type_id(context, file_data, data_size, position)\<close>: the context after the call,
  or the fault. The first statement reads \<open>context->file_config\<close>, before the test
  \<open>if (!context)\<close>: with a null context that read is the fault.
\<close>

definition file_type_id ::
  "classifier \<Rightarrow> FileContext option \<Rightarrow> uint8_t list \<Rightarrow> c_int \<Rightarrow> FilePosition
   \<Rightarrow> fault + FileContext" where
  "file_type_id find_file_type_id context_ptr file_data data_size position =
     (case context_ptr of
        None \<Rightarrow> Inl NULL_DEREFERENCE
      | Some context \<Rightarrow>
          (let cfg = file_config context in
           if SNORT_FILE_TYPE_CONTINUE \<noteq> file_type_id_field context then Inr context
           else
             (let data_size' =
                    get_data_size_from_depth_limit context SNORT_FILE_TYPE_ID data_size in
              if data_size' <s 0
              then Inr (context\<lparr>file_type_id_field := SNORT_FILE_TYPE_UNKNOWN\<rparr>)
              else
                (case position of
                   SNORT_FILE_START \<Rightarrow>
                     call_find_file_type_id find_file_type_id cfg file_data data_size'
                       (context\<lparr>file_type_context := None\<rparr>)
                 | SNORT_FILE_MIDDLE \<Rightarrow>
                     call_find_file_type_id find_file_type_id cfg file_data data_size' context
                 | SNORT_FILE_END \<Rightarrow>
                     continue_to_unknown
                       (call_find_file_type_id find_file_type_id cfg file_data data_size'
                          context)
                 | SNORT_FILE_FULL \<Rightarrow>
                     continue_to_unknown
                       (call_find_file_type_id find_file_type_id cfg file_data data_size'
                          (context\<lparr>file_type_context := None\<rparr>))
                 | _ \<Rightarrow> Inr context))))"

subsection \<open>file\_signature\_sha256\<close>

text \<open>\<open>if (!context->file_signature_context) ... = SnortAlloc(...)\<close>: the digest context
  in use afterwards.\<close>

definition signature_context_or_alloc :: "FileContext \<Rightarrow> SHA256_CTX" where
  "signature_context_or_alloc context =
     (case file_signature_context context of
        None \<Rightarrow> SnortAlloc_SHA256CONTEXT
      | Some c \<Rightarrow> c)"

text \<open>
  \<open>file_signature_sha256(context, file_data, data_size, position)\<close>: the context after
  the call (\<open>None\<close> for a null context, which is tested first). The first argument is
  the digest function of the library.
\<close>

definition file_signature_sha256 ::
  "(SHA256_CTX \<Rightarrow> uint8_t list) \<Rightarrow> FileContext option \<Rightarrow> uint8_t list \<Rightarrow> c_int
   \<Rightarrow> FilePosition \<Rightarrow> FileContext option" where
  "file_signature_sha256 digest context_ptr file_data data_size position =
     (case context_ptr of
        None \<Rightarrow> None
      | Some context \<Rightarrow>
          (let data_size' =
                 get_data_size_from_depth_limit context SNORT_FILE_SHA256 data_size in
           if data_size' <s 0 then Some context
           else
             (case position of
                SNORT_FILE_START \<Rightarrow>
                  Some (context\<lparr>file_signature_context :=
                    Some (SHA256UPDATE (SHA256INIT SnortAlloc_SHA256CONTEXT)
                            file_data data_size')\<rparr>)
              | SNORT_FILE_MIDDLE \<Rightarrow>
                  Some (context\<lparr>file_signature_context :=
                    Some (SHA256UPDATE (signature_context_or_alloc context)
                            file_data data_size')\<rparr>)
              | SNORT_FILE_END \<Rightarrow>
                  (case SHA256FINAL digest
                          (SHA256UPDATE (signature_context_or_alloc context)
                             file_data data_size') of
                     (md, c) \<Rightarrow>
                       Some (context\<lparr>file_signature_context := Some c, sha256 := Some md\<rparr>))
              | SNORT_FILE_FULL \<Rightarrow>
                  (case SHA256FINAL digest
                          (SHA256UPDATE (SHA256INIT SnortAlloc_SHA256CONTEXT)
                             file_data data_size') of
                     (md, c) \<Rightarrow>
                       Some (context\<lparr>file_signature_context := Some c, sha256 := Some md\<rparr>))
              | _ \<Rightarrow> Some context)))"

text \<open>
  A stream of chunks delivered to one context, in order: each chunk with its length as
  \<open>data_size\<close> and its position marker.
\<close>

fun feed_signature ::
  "(SHA256_CTX \<Rightarrow> uint8_t list) \<Rightarrow> FileContext option
   \<Rightarrow> (uint8_t list \<times> FilePosition) list \<Rightarrow> FileContext option" where
  "feed_signature digest context_ptr [] = context_ptr"
| "feed_signature digest context_ptr ((chunk, position) # rest) =
     feed_signature digest
       (file_signature_sha256 digest context_ptr chunk (of_nat (length chunk)) position)
       rest"

text \<open>
  The calls of \<open>file_type_id\<close> on one context, in order: each with its data, its
  \<open>data_size\<close> and its position. A fault ends the sequence.
\<close>

fun feed_type_id ::
  "classifier \<Rightarrow> fault + FileContext \<Rightarrow> (uint8_t list \<times> c_int \<times> FilePosition) list
   \<Rightarrow> fault + FileContext" where
  "feed_type_id find_file_type_id r [] = r"
| "feed_type_id find_file_type_id (Inl e) (call # rest) = Inl e"
| "feed_type_id find_file_type_id (Inr context) ((file_data, data_size, position) # rest) =
     feed_type_id find_file_type_id
       (file_type_id find_file_type_id (Some context) file_data data_size position) rest"

text \<open>
  No depth limit is in effect for a chunk on a context: the length of the chunk is an
  \<open>int\<close>, and the limiter returns it as it is (no configuration, or a depth not yet
  reached).
\<close>

definition passes :: "FileContext \<Rightarrow> uint8_t list \<Rightarrow> bool" where
  "passes context chunk \<longleftrightarrow>
     length chunk < 2 ^ 31 \<and>
     get_data_size_from_depth_limit context SNORT_FILE_SHA256 (of_nat (length chunk))
       = of_nat (length chunk)"


text \<open>
  A context at the start of a file, for the examples: nothing classified, no digest, with
  the given configuration and count of processed bytes.
\<close>

definition new_FileContext :: "FileConfig option \<Rightarrow> uint64_t \<Rightarrow> FileContext" where
  "new_FileContext cfg processed =
     \<lparr>file_config = cfg, processed_bytes = processed,
      file_type_id_field = SNORT_FILE_TYPE_CONTINUE, file_type_context = None,
      file_signature_context = None, sha256 = None, file_name = None,
      file_name_size = 0, file_size = 0, upload = False\<rparr>"

section \<open>Properties of the CVS decoder\<close>

subsection \<open>memchr\<close>

lemma memchr_None: "memchr xs c = None \<longleftrightarrow> c \<notin> set xs"
  by (induction xs) auto

lemma memchr_NoneI: "c \<notin> set xs \<Longrightarrow> memchr xs c = None"
  by (simp add: memchr_None)

lemma memchr_drop_count:
  "memchr xs c = Some i \<Longrightarrow> count_list xs c = Suc (count_list (drop (Suc i) xs) c)"
  by (induction xs arbitrary: i) (auto split: if_splits)

lemma count_list_0: "c \<notin> set xs \<Longrightarrow> count_list xs c = 0"
  by (induction xs) auto

subsection \<open>The validator's loop\<close>

text \<open>Away from the third separator, the jump of \<open>memchr\<close> to the next separator is the
  same as stepping over one byte that is not a separator.\<close>

lemma loop_no_sep:
  "CHR ''/'' \<notin> set xs \<Longrightarrow> s \<noteq> 3 \<Longrightarrow> CvsValidateEntry_loop xs s = Inr s"
  by (cases xs) (auto simp: memchr_NoneI)

lemma loop_skip:
  assumes "s \<noteq> 3" "b \<noteq> CHR ''/''"
  shows "CvsValidateEntry_loop (b # bs) s = CvsValidateEntry_loop bs s"
proof (cases "memchr bs (CHR ''/'')")
  case None
  then have "CHR ''/'' \<notin> set bs" by (simp add: memchr_None)
  then show ?thesis using assms by (simp add: loop_no_sep memchr_NoneI)
next
  case (Some i)
  then obtain c cs where bs: "bs = c # cs" by (cases bs) auto
  show ?thesis using Some assms unfolding bs
    by (auto split: option.splits if_splits)
qed

lemma loop_count:
  "3 < s \<Longrightarrow> CvsValidateEntry_loop xs s = Inr (s + count_list xs (CHR ''/''))"
proof (induction xs arbitrary: s)
  case Nil
  then show ?case by simp
next
  case (Cons b bs)
  show ?case
  proof (cases "b = CHR ''/''")
    case True
    then show ?thesis using Cons.IH[of "s + 1"] Cons.prems by simp
  next
    case False
    then have "CvsValidateEntry_loop (b # bs) s = CvsValidateEntry_loop bs s"
      using Cons.prems by (intro loop_skip) auto
    then show ?thesis using Cons.IH[of s] Cons.prems False by simp
  qed
qed

lemma loop_plus:
  "CvsValidateEntry_loop (CHR ''+'' # bs) 3 = Inr (3 + count_list bs (CHR ''/''))"
proof (cases "memchr bs (CHR ''/'')")
  case None
  then have "CHR ''/'' \<notin> set bs" by (simp add: memchr_None)
  then show ?thesis by (simp add: memchr_NoneI count_list_0)
next
  case (Some i)
  then show ?thesis using memchr_drop_count[OF Some] by (simp add: loop_count)
qed

text \<open>With \<open>s \<le> 3\<close> separators counted, the loop returns from its body exactly when
  the byte after the separator that makes three is neither \<open>/\<close> nor \<open>+\<close>; otherwise it
  counts every separator of the range.\<close>

lemma loop_main:
  "s \<le> 3 \<Longrightarrow> CvsValidateEntry_loop xs s =
     (case byte_after_sep (3 - s) xs of
        Some b \<Rightarrow> if b \<noteq> CHR ''/'' \<and> b \<noteq> CHR ''+'' then Inl CVS_ENTRY_INVALID
                  else Inr (s + count_list xs (CHR ''/''))
      | None \<Rightarrow> Inr (s + count_list xs (CHR ''/'')))"
proof (induction xs arbitrary: s)
  case Nil
  then show ?case by (cases "3 - s") auto
next
  case (Cons b bs)
  show ?case
  proof (cases "s = 3")
    case True
    show ?thesis
    proof (cases "b = CHR ''/''")
      case True
      then show ?thesis using \<open>s = 3\<close> by (simp add: loop_count)
    next
      case False
      then show ?thesis using \<open>s = 3\<close> loop_plus[of bs] by (cases "b = CHR ''+''") auto
    qed
  next
    case False
    then have lt: "s < 3" using Cons.prems by simp
    then obtain k where k: "3 - s = Suc k" by (cases "3 - s") auto
    then have k': "3 - (s + 1) = k" by simp
    show ?thesis
    proof (cases "b = CHR ''/''")
      case True
      then show ?thesis using Cons.IH[of "s + 1"] lt k k' by (simp split: option.splits)
    next
      case nsl: False
      then have "CvsValidateEntry_loop (b # bs) s = CvsValidateEntry_loop bs s"
        using False by (intro loop_skip) auto
      then show ?thesis using Cons.IH[of s] lt k nsl by (simp split: option.splits)
    qed
  qed
qed

lemma byte_after_None_count:
  "byte_after_sep k xs = None \<Longrightarrow> count_list xs (CHR ''/'') \<le> k"
  by (induction k xs rule: byte_after_sep.induct) (auto split: list.splits if_splits)

lemma CvsValidateEntry_Some:
  "CvsValidateEntry (Some xs) =
     (if spec_entry_shape xs then CVS_ENTRY_VALID else CVS_ENTRY_INVALID)"
  using loop_main[of 0 xs] byte_after_None_count[of 3 xs]
  by (auto simp: CvsValidateEntry_def spec_entry_shape_def split: option.splits if_splits)

text \<open>
  Claim C1, as the code has it. A null argument is valid. Every argument that is not
  null, the empty one included, is valid exactly when it has exactly five separators
  \<open>/\<close> and the byte immediately following the third separator is \<open>/\<close> or \<open>+\<close>; in every
  other case it is invalid.
\<close>

theorem CvsValidateEntry_shape:
  "CvsValidateEntry None = CVS_ENTRY_VALID
   \<and> (CvsValidateEntry (Some bs) = CVS_ENTRY_VALID \<longleftrightarrow>
        count_list bs (CHR ''/'') = 5
        \<and> (byte_after_sep 3 bs = Some (CHR ''/'') \<or> byte_after_sep 3 bs = Some (CHR ''+'')))
   \<and> (CvsValidateEntry (Some bs) = CVS_ENTRY_INVALID \<longleftrightarrow>
        CvsValidateEntry (Some bs) \<noteq> CVS_ENTRY_VALID)"
proof -
  have "CvsValidateEntry None = CVS_ENTRY_VALID"
    by (simp add: CvsValidateEntry_def)
  moreover have "CvsValidateEntry (Some bs) = CVS_ENTRY_VALID \<longleftrightarrow> spec_entry_shape bs"
    by (simp add: CvsValidateEntry_Some CVS_ENTRY_VALID_def CVS_ENTRY_INVALID_def)
  moreover have "CvsValidateEntry (Some bs) = CVS_ENTRY_INVALID \<longleftrightarrow>
      CvsValidateEntry (Some bs) \<noteq> CVS_ENTRY_VALID"
    by (simp add: CvsValidateEntry_Some CVS_ENTRY_VALID_def CVS_ENTRY_INVALID_def)
  ultimately show ?thesis by (simp add: spec_entry_shape_def)
qed

text \<open>
  Claim C1 as stated fails for the empty argument: the range that is empty but not null
  (the argument of the line \<open>Entry\<close> followed by one space) has no separator, and the
  validator answers invalid, not valid.
\<close>

theorem CvsValidateEntry_empty_invalid:
  "CvsValidateEntry (Some []) = CVS_ENTRY_INVALID
   \<and> CvsValidateEntry (Some []) \<noteq> CVS_ENTRY_VALID"
  by (simp add: CvsValidateEntry_def CVS_ENTRY_VALID_def CVS_ENTRY_INVALID_def)

subsection \<open>The decoder's loop\<close>

lemma memchr_Some:
  "memchr xs c = Some i \<longleftrightarrow> i < length xs \<and> xs ! i = c \<and> c \<notin> set (take i xs)"
proof (induction xs arbitrary: i)
  case Nil
  then show ?case by simp
next
  case (Cons a xs)
  then show ?case by (cases i) auto
qed

lemma memchr_split:
  "memchr xs c = Some i \<Longrightarrow> xs = take i xs @ c # drop (Suc i) xs \<and> c \<notin> set (take i xs)"
  by (auto simp: memchr_Some id_take_nth_drop)

lemma memchr_append:
  "c \<notin> set xs \<Longrightarrow> memchr (xs @ c # ys) c = Some (length xs)"
  by (induction xs) auto

lemma cmd_str_GetCommand: "cmd_str (CvsGetCommand (Some l)) = Some l"
  by (simp add: CvsGetCommand_def split: option.splits)

text \<open>The test of the loop body holds of a line exactly when the line is \<open>Entry\<close>, one
  separator and an argument that validates as invalid.\<close>

lemma entry_test_iff: "entry_test l \<longleftrightarrow> invalid_entry_line l"
proof (cases "memchr l CVS_COMMAND_SEPARATOR")
  case None
  then have "CVS_COMMAND_SEPARATOR \<notin> set l" by (simp add: memchr_None)
  then have "\<not> invalid_entry_line l" by (auto simp: invalid_entry_line_def)
  moreover have "\<not> entry_test l" using None
    by (simp add: entry_test_def CvsGetCommand_def CvsValidateEntry_def
        CVS_ENTRY_VALID_def CVS_ENTRY_INVALID_def)
  ultimately show ?thesis by simp
next
  case (Some i)
  note sp = memchr_split[OF Some]
  have i: "i < length l" using Some by (simp add: memchr_Some)
  have lc: "entry_test l \<longleftrightarrow> i = 5 \<and> take 5 l = CVS_ENTRY_STR
      \<and> CvsValidateEntry (Some (drop (Suc i) l)) = CVS_ENTRY_INVALID"
    using Some i
    by (auto simp: entry_test_def CvsGetCommand_def CvsCmdCompare_def memcmp_def
        CVS_ENTRY_STR_def)
  show ?thesis
  proof
    assume "entry_test l"
    then have a: "i = 5" "take 5 l = CVS_ENTRY_STR"
      "CvsValidateEntry (Some (drop (Suc i) l)) = CVS_ENTRY_INVALID" using lc by auto
    then have "l = CVS_ENTRY_STR @ CVS_COMMAND_SEPARATOR # drop (Suc i) l" using sp by simp
    then show "invalid_entry_line l" using a(3) unfolding invalid_entry_line_def by blast
  next
    assume "invalid_entry_line l"
    then obtain arg where arg: "l = CVS_ENTRY_STR @ CVS_COMMAND_SEPARATOR # arg"
      "CvsValidateEntry (Some arg) = CVS_ENTRY_INVALID"
      unfolding invalid_entry_line_def by blast
    have "CVS_COMMAND_SEPARATOR \<notin> set CVS_ENTRY_STR"
      by (simp add: CVS_ENTRY_STR_def CVS_COMMAND_SEPARATOR_def)
    then have "memchr l CVS_COMMAND_SEPARATOR = Some (length CVS_ENTRY_STR)"
      using arg(1) memchr_append by metis
    then have "i = 5" using Some by (simp add: CVS_ENTRY_STR_def)
    moreover have "take 5 l = CVS_ENTRY_STR" "drop 6 l = arg"
      using arg(1) by (simp_all add: CVS_ENTRY_STR_def)
    ultimately show "entry_test l" using lc arg(2) by simp
  qed
qed

lemma first_delim_unique:
  assumes "c \<notin> set xs" "c \<notin> set xs'" "xs @ c # ys = xs' @ c # ys'"
  shows "xs = xs' \<and> ys = ys'"
  using assms
proof (induction xs arbitrary: xs')
  case Nil
  then show ?case by (cases xs') auto
next
  case (Cons a xs)
  then show ?case by (cases xs') auto
qed

text \<open>The lines of \<open>l0 @ delimiter # r0\<close> are \<open>l0\<close> and the lines of \<open>r0\<close>.\<close>

lemma some_line_followed_step:
  assumes "CVS_COMMAND_DELIMITER \<notin> set l0"
  shows "some_line_followed P (l0 @ CVS_COMMAND_DELIMITER # r0) \<longleftrightarrow>
           (P l0 \<and> r0 \<noteq> []) \<or> some_line_followed P r0"
proof
  assume "some_line_followed P (l0 @ CVS_COMMAND_DELIMITER # r0)"
  then obtain pre ln rest where d:
    "l0 @ CVS_COMMAND_DELIMITER # r0 = pre @ ln @ CVS_COMMAND_DELIMITER # rest"
    "pre = [] \<or> (\<exists>p. pre = p @ [CVS_COMMAND_DELIMITER])"
    "CVS_COMMAND_DELIMITER \<notin> set ln" "rest \<noteq> []" "P ln"
    unfolding some_line_followed_def by blast
  show "(P l0 \<and> r0 \<noteq> []) \<or> some_line_followed P r0"
  proof (cases "pre = []")
    case True
    then have "l0 = ln \<and> r0 = rest"
      using d(1,3) assms first_delim_unique[of CVS_COMMAND_DELIMITER l0 ln r0 rest] by simp
    then show ?thesis using d by simp
  next
    case False
    then obtain p where p: "pre = p @ [CVS_COMMAND_DELIMITER]" using d(2) by blast
    show ?thesis
    proof (cases "CVS_COMMAND_DELIMITER \<in> set p")
      case False
      have "l0 @ CVS_COMMAND_DELIMITER # r0 =
          p @ CVS_COMMAND_DELIMITER # (ln @ CVS_COMMAND_DELIMITER # rest)"
        using d(1) p by simp
      then have "r0 = ln @ CVS_COMMAND_DELIMITER # rest"
        using False assms
          first_delim_unique[of CVS_COMMAND_DELIMITER l0 p r0 "ln @ CVS_COMMAND_DELIMITER # rest"]
        by simp
      then have "some_line_followed P r0" unfolding some_line_followed_def
        using d(3,4,5) by (intro exI[of _ "[]"] exI[of _ ln] exI[of _ rest]) simp
      then show ?thesis by simp
    next
      case True
      then obtain a b where ab: "p = a @ CVS_COMMAND_DELIMITER # b"
        "CVS_COMMAND_DELIMITER \<notin> set a"
        by (meson split_list_first)
      have "l0 @ CVS_COMMAND_DELIMITER # r0 =
          a @ CVS_COMMAND_DELIMITER #
            (b @ [CVS_COMMAND_DELIMITER] @ ln @ CVS_COMMAND_DELIMITER # rest)"
        using d(1) p ab by simp
      then have "r0 = (b @ [CVS_COMMAND_DELIMITER]) @ ln @ CVS_COMMAND_DELIMITER # rest"
        using ab(2) assms
          first_delim_unique[of CVS_COMMAND_DELIMITER l0 a r0
            "b @ [CVS_COMMAND_DELIMITER] @ ln @ CVS_COMMAND_DELIMITER # rest"]
        by simp
      then have "some_line_followed P r0" unfolding some_line_followed_def
        using d(3,4,5)
        by (intro exI[of _ "b @ [CVS_COMMAND_DELIMITER]"] exI[of _ ln] exI[of _ rest]) simp
      then show ?thesis by simp
    qed
  qed
next
  assume "(P l0 \<and> r0 \<noteq> []) \<or> some_line_followed P r0"
  then show "some_line_followed P (l0 @ CVS_COMMAND_DELIMITER # r0)"
  proof
    assume "P l0 \<and> r0 \<noteq> []"
    then show ?thesis unfolding some_line_followed_def using assms
      by (intro exI[of _ "[]"] exI[of _ l0] exI[of _ r0]) simp
  next
    assume "some_line_followed P r0"
    then obtain pre ln rest where d:
      "r0 = pre @ ln @ CVS_COMMAND_DELIMITER # rest"
      "pre = [] \<or> (\<exists>p. pre = p @ [CVS_COMMAND_DELIMITER])"
      "CVS_COMMAND_DELIMITER \<notin> set ln" "rest \<noteq> []" "P ln"
      unfolding some_line_followed_def by blast
    have "\<exists>p. l0 @ CVS_COMMAND_DELIMITER # pre = p @ [CVS_COMMAND_DELIMITER]"
      using d(2) by auto
    then show ?thesis unfolding some_line_followed_def using d
      by (intro exI[of _ "l0 @ CVS_COMMAND_DELIMITER # pre"] exI[of _ ln] exI[of _ rest]) simp
  qed
qed

lemma some_line_followed_no_delim:
  "CVS_COMMAND_DELIMITER \<notin> set line \<Longrightarrow> \<not> some_line_followed P line"
  by (auto simp: some_line_followed_def)

text \<open>The loop returns on every range, and what it returns: by induction on the number
  of bytes left, which every iteration that does not return makes smaller.\<close>

lemma CvsDecode_loop_result:
  "CvsDecode_loop opt line =
     Some (if type opt = CVS_INVALID_ENTRY \<and> some_line_followed invalid_entry_line line
           then CVS_ALERT else CVS_NO_ALERT)"
proof (induction line rule: length_induct)
  case (1 line)
  show ?case
  proof (cases "line = []")
    case True
    then show ?thesis
      by (subst CvsDecode_loop.simps) (simp add: some_line_followed_no_delim)
  next
    case ne: False
    show ?thesis
    proof (cases "memchr line CVS_COMMAND_DELIMITER")
      case None
      then have nd: "CVS_COMMAND_DELIMITER \<notin> set line" by (simp add: memchr_None)
      have "CvsDecode_loop opt line = CvsDecode_loop opt []"
        using ne None
        by (subst CvsDecode_loop.simps) (simp add: CvsGetEOL_def cmd_str_GetCommand)
      also have "\<dots> = Some CVS_NO_ALERT" by (subst CvsDecode_loop.simps) simp
      finally show ?thesis using nd by (simp add: some_line_followed_no_delim)
    next
      case (Some i)
      define l0 where "l0 = take i line"
      define r0 where "r0 = drop (Suc i) line"
      have line: "line = l0 @ CVS_COMMAND_DELIMITER # r0"
        and nd: "CVS_COMMAND_DELIMITER \<notin> set l0"
        using memchr_split[OF Some] by (simp_all add: l0_def r0_def)
      have i: "i < length line" using Some by (simp add: memchr_Some)
      have r0_ne: "Suc i < length line \<longleftrightarrow> r0 \<noteq> []" by (auto simp: r0_def)
      have step: "CvsDecode_loop opt line =
          (if type opt = CVS_INVALID_ENTRY \<and> entry_test l0 \<and> r0 \<noteq> []
           then Some CVS_ALERT else CvsDecode_loop opt r0)"
        using ne Some r0_ne
        by (subst CvsDecode_loop.simps)
           (simp add: CvsGetEOL_def cmd_str_GetCommand entry_test_def
              l0_def[symmetric] r0_def[symmetric])
      have "length r0 < length line" using i by (simp add: r0_def)
      then have IH: "CvsDecode_loop opt r0 =
          Some (if type opt = CVS_INVALID_ENTRY \<and> some_line_followed invalid_entry_line r0
                then CVS_ALERT else CVS_NO_ALERT)"
        using 1 by blast
      have "some_line_followed invalid_entry_line line \<longleftrightarrow>
          (invalid_entry_line l0 \<and> r0 \<noteq> []) \<or> some_line_followed invalid_entry_line r0"
        unfolding line using nd by (rule some_line_followed_step)
      then show ?thesis using step IH by (auto simp: entry_test_iff)
    qed
  qed
qed

text \<open>
  Claim C2, as the code has it. With the option type invalid-entry, the decoder returns
  the alert exactly when some line of the buffer has the command name \<open>Entry\<close> byte for
  byte (the comparison is \<open>memcmp\<close>, so the case of the letters counts), an argument
  that validates as invalid, and at least one byte after the line's delimiter;
  otherwise it returns no alert. With any other option type it returns no alert.
\<close>

theorem CvsDecode_alert_iff:
  "(CvsDecode buf data_len opt = Some CVS_ALERT \<longleftrightarrow>
      type opt = CVS_INVALID_ENTRY
      \<and> some_line_followed invalid_entry_line (take (unat data_len) buf))
   \<and> (CvsDecode buf data_len opt \<noteq> Some CVS_ALERT \<longleftrightarrow>
        CvsDecode buf data_len opt = Some CVS_NO_ALERT)"
  by (simp add: CvsDecode_def CvsDecode_loop_result CVS_ALERT_def CVS_NO_ALERT_def)

text \<open>The scenario of the specification: the entry \<open>/cvs.cXX1.5///\<close> has four
  separators and the line \<open>Modified\<close> follows, so the decoder alerts and, by the
  theorem, the buffer has a triggering line that is followed.\<close>

theorem CvsDecode_alert_iff_witness:
  "CvsDecode (''Entry /cvs.cXX1.5///'' @ [CHR 0x0A] @ ''Modified'' @ [CHR 0x0A]) 30
     \<lparr>type = CVS_INVALID_ENTRY\<rparr> = Some CVS_ALERT
   \<and> some_line_followed invalid_entry_line
       (take (unat (30 :: 16 word))
          (''Entry /cvs.cXX1.5///'' @ [CHR 0x0A] @ ''Modified'' @ [CHR 0x0A]))"
proof -
  have "CvsDecode (''Entry /cvs.cXX1.5///'' @ [CHR 0x0A] @ ''Modified'' @ [CHR 0x0A]) 30
     \<lparr>type = CVS_INVALID_ENTRY\<rparr> = Some CVS_ALERT"
    by code_simp
  then show ?thesis
    using CvsDecode_alert_iff[of "''Entry /cvs.cXX1.5///'' @ [CHR 0x0A] @ ''Modified'' @ [CHR 0x0A]"
        30 "\<lparr>type = CVS_INVALID_ENTRY\<rparr>"]
    by blast
qed

text \<open>
  Claim C2 as stated fails where the case differs: in the buffer \<open>entry /x\<close>, delimiter,
  \<open>M\<close> the first line has a command name equal to \<open>Entry\<close> up to case, the argument
  \<open>/x\<close> validates as invalid and the byte \<open>M\<close> follows the line, but the decoder
  returns no alert.
\<close>

theorem CvsDecode_case_sensitive:
  "some_line_followed spec_invalid_entry_line (''entry /x'' @ [CHR 0x0A] @ ''M'')
   \<and> CvsDecode (''entry /x'' @ [CHR 0x0A] @ ''M'') 10 \<lparr>type = CVS_INVALID_ENTRY\<rparr>
       = Some CVS_NO_ALERT"
proof -
  have eq: "spec_caseless_eq ''entry'' CVS_ENTRY_STR"
    by code_simp
  have inv: "CvsValidateEntry (Some ''/x'') = CVS_ENTRY_INVALID"
    by code_simp
  have "''entry /x'' = ''entry'' @ CVS_COMMAND_SEPARATOR # ''/x''"
    "CVS_COMMAND_SEPARATOR \<notin> set ''entry''"
    by (simp_all add: CVS_COMMAND_SEPARATOR_def)
  then have ln: "spec_invalid_entry_line ''entry /x''"
    unfolding spec_invalid_entry_line_def using eq inv by blast
  have "''entry /x'' @ [CHR 0x0A] @ ''M'' = [] @ ''entry /x'' @ CVS_COMMAND_DELIMITER # ''M''"
    "CVS_COMMAND_DELIMITER \<notin> set ''entry /x''"
    by (simp_all add: CVS_COMMAND_DELIMITER_def)
  then have "some_line_followed spec_invalid_entry_line (''entry /x'' @ [CHR 0x0A] @ ''M'')"
    unfolding some_line_followed_def using ln
    by (intro exI[of _ "[]"] exI[of _ "''entry /x''"] exI[of _ "''M''"]) simp
  moreover have "CvsDecode (''entry /x'' @ [CHR 0x0A] @ ''M'') 10 \<lparr>type = CVS_INVALID_ENTRY\<rparr>
       = Some CVS_NO_ALERT"
    by code_simp
  ultimately show ?thesis by simp
qed

text \<open>
  Claim C10. \<open>CvsDecode\<close> returns for every buffer, length and option. In an iteration
  (the range from \<open>line\<close> to \<open>end\<close> is not empty) the end of line that \<open>CvsGetEOL\<close>
  computes is strictly past \<open>line\<close> and not past \<open>end\<close>, and it is \<open>end\<close> when the
  range has no delimiter; so the range left for the next iteration is strictly shorter.
\<close>

theorem CvsDecode_terminates:
  "(\<exists>r. CvsDecode buf data_len opt = Some r)
   \<and> (line \<noteq> [] \<longrightarrow>
        0 < fst (CvsGetEOL line) \<and> fst (CvsGetEOL line) \<le> length line
        \<and> length (drop (fst (CvsGetEOL line)) line) < length line
        \<and> (CVS_COMMAND_DELIMITER \<notin> set line \<longrightarrow> fst (CvsGetEOL line) = length line))"
proof -
  have "\<exists>r. CvsDecode buf data_len opt = Some r"
    by (simp add: CvsDecode_def CvsDecode_loop_result)
  moreover have "0 < fst (CvsGetEOL line) \<and> fst (CvsGetEOL line) \<le> length line
        \<and> length (drop (fst (CvsGetEOL line)) line) < length line
        \<and> (CVS_COMMAND_DELIMITER \<notin> set line \<longrightarrow> fst (CvsGetEOL line) = length line)"
    if "line \<noteq> []"
  proof (cases "memchr line CVS_COMMAND_DELIMITER")
    case None
    then show ?thesis using that by (simp add: CvsGetEOL_def)
  next
    case (Some i)
    then have i: "i < length line" "line ! i = CVS_COMMAND_DELIMITER"
      by (simp_all add: memchr_Some)
    then have "CVS_COMMAND_DELIMITER \<in> set line"
      using nth_mem[of i line] by simp
    then show ?thesis using Some i(1) by (simp add: CvsGetEOL_def)
  qed
  ultimately show ?thesis by blast
qed

theorem CvsDecode_terminates_witness:
  "(\<exists>r. CvsDecode (''a'' @ [CHR 0x0A] @ ''b'') 3 \<lparr>type = CVS_INVALID_ENTRY\<rparr> = Some r)
   \<and> ''b'' \<noteq> [] \<and> CVS_COMMAND_DELIMITER \<notin> set ''b''
   \<and> fst (CvsGetEOL ''b'') = length ''b''
   \<and> 0 < fst (CvsGetEOL (''a'' @ [CHR 0x0A] @ ''b''))
   \<and> length (drop (fst (CvsGetEOL (''a'' @ [CHR 0x0A] @ ''b''))) (''a'' @ [CHR 0x0A] @ ''b''))
       < length (''a'' @ [CHR 0x0A] @ ''b'')"
  using CvsDecode_terminates[of "''a'' @ [CHR 0x0A] @ ''b''" 3 "\<lparr>type = CVS_INVALID_ENTRY\<rparr>" "''b''"]
    CvsDecode_terminates[of "''a'' @ [CHR 0x0A] @ ''b''" 3 "\<lparr>type = CVS_INVALID_ENTRY\<rparr>"
      "''a'' @ [CHR 0x0A] @ ''b''"]
  by (simp add: CVS_COMMAND_DELIMITER_def)

section \<open>Properties of the file processing\<close>

subsection \<open>Conversions between \<open>int\<close> and \<open>uint64_t\<close>\<close>



lemma sint_of_nat_small:
  assumes "n < 2 ^ 31"
  shows "sint (of_nat n :: 32 word) = int n"
proof -
  have "int n < int (2 ^ 31)" using assms by (simp only: of_nat_less_iff)
  then have lt: "int n < 2 ^ 31" by simp
  have "(of_nat n :: 32 word) = word_of_int (int n)" by simp
  then have "sint (of_nat n :: 32 word) = (int n + 2 ^ 31) mod 2 ^ 32 - 2 ^ 31"
    by (simp only: int_word_sint) simp
  also have "(int n + 2 ^ 31) mod 2 ^ 32 = int n + 2 ^ 31"
    using lt by (intro mod_pos_pos_trivial) simp_all
  finally show ?thesis by simp
qed

lemma unat_of_nat_small:
  assumes "n < 2 ^ 31"
  shows "unat (of_nat n :: 32 word) = n"
proof -
  have "(2::nat) ^ 31 < 2 ^ 32" by simp
  then have "n < 2 ^ 32" using assms by linarith
  then have "n mod 2 ^ 32 = n" by (rule mod_less)
  moreover have "unat (of_nat n :: 32 word) = n mod 2 ^ 32"
    by (subst unat_of_nat) simp
  ultimately show ?thesis by (simp only:)
qed

text \<open>A chunk length below \<open>2 ^ 31\<close> is a non-negative \<open>int\<close> that covers the chunk.\<close>

lemma chunk_size:
  assumes "length chunk < 2 ^ 31"
  shows "\<not> (of_nat (length chunk) :: 32 word) <s 0"
    and "take (unat (of_nat (length chunk) :: 32 word)) chunk = chunk"
  using sint_of_nat_small[OF assms] unat_of_nat_small[OF assms]
  by (simp_all add: word_sless_alt)

subsection \<open>The depth limiter\<close>


lemma limiter_frame:
  "file_config c' = file_config c \<Longrightarrow> processed_bytes c' = processed_bytes c \<Longrightarrow>
     get_data_size_from_depth_limit c' k n = get_data_size_from_depth_limit c k n"
  by (simp add: get_data_size_from_depth_limit_def split: option.splits FileProcessType.splits)




subsection \<open>file\_type\_id\<close>

lemma file_type_id_resolved:
  "file_type_id_field ctx \<noteq> SNORT_FILE_TYPE_CONTINUE \<Longrightarrow>
     file_type_id f (Some ctx) d n pos = Inr ctx"
  by (auto simp: file_type_id_def)

text \<open>
  Claim C4. On a context whose classification is still \<open>Continue\<close>: if the limiter
  signals stop (a negative size), the call sets the classification to \<open>Unknown\<close> and
  changes nothing else; at the position End, and at the position Whole (after the reset
  of the continuation state), if the classifier of the configuration returns
  \<open>Continue\<close>, the classification is \<open>Unknown\<close> in the context that the classifier
  left; and no call at End or Whole that returns leaves the classification at
  \<open>Continue\<close>.
\<close>

theorem file_type_id_continue:
  assumes "file_type_id_field ctx = SNORT_FILE_TYPE_CONTINUE"
  shows "(get_data_size_from_depth_limit ctx SNORT_FILE_TYPE_ID n <s 0 \<longrightarrow>
            file_type_id f (Some ctx) d n pos
              = Inr (ctx\<lparr>file_type_id_field := SNORT_FILE_TYPE_UNKNOWN\<rparr>))
    \<and> (\<not> get_data_size_from_depth_limit ctx SNORT_FILE_TYPE_ID n <s 0
        \<and> file_config ctx \<noteq> None
        \<and> f d (get_data_size_from_depth_limit ctx SNORT_FILE_TYPE_ID n) ctx
            = (SNORT_FILE_TYPE_CONTINUE, ctx') \<longrightarrow>
          file_type_id f (Some ctx) d n SNORT_FILE_END
            = Inr (ctx'\<lparr>file_type_id_field := SNORT_FILE_TYPE_UNKNOWN\<rparr>))
    \<and> (\<not> get_data_size_from_depth_limit ctx SNORT_FILE_TYPE_ID n <s 0
        \<and> file_config ctx \<noteq> None
        \<and> f d (get_data_size_from_depth_limit ctx SNORT_FILE_TYPE_ID n)
              (ctx\<lparr>file_type_context := None\<rparr>)
            = (SNORT_FILE_TYPE_CONTINUE, ctx') \<longrightarrow>
          file_type_id f (Some ctx) d n SNORT_FILE_FULL
            = Inr (ctx'\<lparr>file_type_id_field := SNORT_FILE_TYPE_UNKNOWN\<rparr>))
    \<and> ((pos = SNORT_FILE_END \<or> pos = SNORT_FILE_FULL)
        \<and> file_type_id f (Some ctx) d n pos = Inr ctx'' \<longrightarrow>
          file_type_id_field ctx'' \<noteq> SNORT_FILE_TYPE_CONTINUE)"
  using assms
  by (auto simp: file_type_id_def Let_def call_find_file_type_id_def continue_to_unknown_def
      split: option.splits prod.splits if_splits)

text \<open>With a type depth of 5 and a classifier that always answers \<open>Continue\<close>: after 6
  processed bytes a Start chunk stops at \<open>Unknown\<close>; at 0 processed bytes an End chunk
  and a Whole chunk end at \<open>Unknown\<close>.\<close>

theorem file_type_id_continue_witness:
  "file_type_id (\<lambda>d n c. (SNORT_FILE_TYPE_CONTINUE, c))
     (Some (new_FileContext (Some \<lparr>file_type_depth = 5, file_signature_depth = 5\<rparr>) 6))
     ''abc'' 3 SNORT_FILE_START
     = Inr ((new_FileContext (Some \<lparr>file_type_depth = 5, file_signature_depth = 5\<rparr>) 6)
              \<lparr>file_type_id_field := SNORT_FILE_TYPE_UNKNOWN\<rparr>)
   \<and> file_type_id (\<lambda>d n c. (SNORT_FILE_TYPE_CONTINUE, c))
     (Some (new_FileContext (Some \<lparr>file_type_depth = 5, file_signature_depth = 5\<rparr>) 0))
     ''abc'' 3 SNORT_FILE_END
     = Inr ((new_FileContext (Some \<lparr>file_type_depth = 5, file_signature_depth = 5\<rparr>) 0)
              \<lparr>file_type_id_field := SNORT_FILE_TYPE_UNKNOWN\<rparr>)
   \<and> file_type_id (\<lambda>d n c. (SNORT_FILE_TYPE_CONTINUE, c))
     (Some (new_FileContext (Some \<lparr>file_type_depth = 5, file_signature_depth = 5\<rparr>) 0))
     ''abc'' 3 SNORT_FILE_FULL
     = Inr ((new_FileContext (Some \<lparr>file_type_depth = 5, file_signature_depth = 5\<rparr>) 0)
              \<lparr>file_type_id_field := SNORT_FILE_TYPE_UNKNOWN\<rparr>)"
proof -
  let ?cfg = "\<lparr>file_type_depth = 5, file_signature_depth = 5\<rparr>"
  let ?f = "\<lambda>(d :: uint8_t list) (n :: c_int) (c :: FileContext). (SNORT_FILE_TYPE_CONTINUE, c)"
  have stop: "get_data_size_from_depth_limit (new_FileContext (Some ?cfg) 6)
      SNORT_FILE_TYPE_ID 3 <s 0"
    by (simp add: get_data_size_from_depth_limit_def depth_limit_def new_FileContext_def
        word_sless_alt)
  have go: "\<not> get_data_size_from_depth_limit (new_FileContext (Some ?cfg) 0)
      SNORT_FILE_TYPE_ID 3 <s 0"
    by (simp add: get_data_size_from_depth_limit_def depth_limit_def new_FileContext_def
        word_sless_alt)
  have c6: "file_type_id_field (new_FileContext (Some ?cfg) 6) = SNORT_FILE_TYPE_CONTINUE"
    and c0: "file_type_id_field (new_FileContext (Some ?cfg) 0) = SNORT_FILE_TYPE_CONTINUE"
    and cfg0: "file_config (new_FileContext (Some ?cfg) 0) \<noteq> None"
    and nul: "(new_FileContext (Some ?cfg) 0)\<lparr>file_type_context := None\<rparr>
        = new_FileContext (Some ?cfg) 0"
    by (simp_all add: new_FileContext_def)
  show ?thesis
    using stop go cfg0 nul
      file_type_id_continue[OF c6, where n = 3 and f = ?f and d = "''abc''"
        and pos = SNORT_FILE_START]
      file_type_id_continue[OF c0, where n = 3 and f = ?f and d = "''abc''"
        and ctx' = "new_FileContext (Some ?cfg) 0"]
    by simp
qed

text \<open>
  Claim C5. On a context whose classification is not \<open>Continue\<close>, a call of
  \<open>file_type_id\<close> with any data, size and position returns the context as it was, and
  so does any sequence of calls: the classification never goes back to \<open>Continue\<close>.
\<close>

theorem file_type_id_after_resolution:
  assumes "file_type_id_field ctx \<noteq> SNORT_FILE_TYPE_CONTINUE"
  shows "file_type_id f (Some ctx) d n pos = Inr ctx
     \<and> feed_type_id f (Inr ctx) calls = Inr ctx"
proof -
  have "feed_type_id f (Inr ctx) calls = Inr ctx"
    using assms by (induction calls) (auto simp: file_type_id_resolved)
  then show ?thesis using assms by (simp add: file_type_id_resolved)
qed

theorem file_type_id_after_resolution_witness:
  "file_type_id_field
      ((new_FileContext None 0)\<lparr>file_type_id_field := Identified 7\<rparr>)
     \<noteq> SNORT_FILE_TYPE_CONTINUE
   \<and> file_type_id (\<lambda>d n c. (SNORT_FILE_TYPE_CONTINUE, c))
       (Some ((new_FileContext None 0)\<lparr>file_type_id_field := Identified 7\<rparr>))
       ''abc'' 3 SNORT_FILE_START
     = Inr ((new_FileContext None 0)\<lparr>file_type_id_field := Identified 7\<rparr>)
   \<and> feed_type_id (\<lambda>d n c. (SNORT_FILE_TYPE_CONTINUE, c))
       (Inr ((new_FileContext None 0)\<lparr>file_type_id_field := Identified 7\<rparr>))
       [(''abc'', 3, SNORT_FILE_START), (''de'', 2, SNORT_FILE_END)]
     = Inr ((new_FileContext None 0)\<lparr>file_type_id_field := Identified 7\<rparr>)"
proof -
  have r: "file_type_id_field
      ((new_FileContext None 0)\<lparr>file_type_id_field := Identified 7\<rparr>)
     \<noteq> SNORT_FILE_TYPE_CONTINUE"
    by simp
  show ?thesis
    using r file_type_id_after_resolution[OF r,
        of "\<lambda>d n c. (SNORT_FILE_TYPE_CONTINUE, c)" "''abc''" 3 SNORT_FILE_START
          "[(''abc'', 3, SNORT_FILE_START), (''de'', 2, SNORT_FILE_END)]"]
    by blast
qed

text \<open>
  Claim C9 fails on the code for \<open>file_type_id\<close>: with a null context the function
  reads \<open>context->file_config\<close> before it tests the context, which is a null
  dereference and not a return.
\<close>

theorem file_type_id_null_context:
  "file_type_id f None d n pos = Inl NULL_DEREFERENCE"
  by (simp add: file_type_id_def)

text \<open>The other absent inputs of claim C9 are guarded: \<open>eval\<close> answers no match for a
  null packet, an absent TCP header and a null or empty payload, and
  \<open>file_signature_sha256\<close> returns at once for a null context.\<close>

lemma absent_input_guards:
  "CvsOption_eval cfg None = Some DETECTION_OPTION_NO_MATCH"
  "tcph pkt = None \<or> data pkt = None \<or> dsize pkt = 0 \<Longrightarrow>
     CvsOption_eval cfg (Some pkt) = Some DETECTION_OPTION_NO_MATCH"
  "file_signature_sha256 dg None d n pos = None"
  by (auto simp: CvsOption_eval_def file_signature_sha256_def split: option.splits)

subsection \<open>file\_signature\_sha256\<close>

text \<open>
  Claim C8. When the limiter signals stop for the signature, the call returns the
  context as it was: the digest in progress, the final signature, the classification
  and every other field are unchanged.
\<close>

theorem file_signature_sha256_stop:
  "get_data_size_from_depth_limit ctx SNORT_FILE_SHA256 n <s 0 \<Longrightarrow>
     file_signature_sha256 dg (Some ctx) d n pos = Some ctx"
  by (simp add: file_signature_sha256_def)

theorem file_signature_sha256_stop_witness:
  "get_data_size_from_depth_limit
      (new_FileContext (Some \<lparr>file_type_depth = 5, file_signature_depth = 5\<rparr>) 6)
      SNORT_FILE_SHA256 3 <s 0
   \<and> file_signature_sha256 absorbed
       (Some (new_FileContext (Some \<lparr>file_type_depth = 5, file_signature_depth = 5\<rparr>) 6))
       ''abc'' 3 SNORT_FILE_END
     = Some (new_FileContext (Some \<lparr>file_type_depth = 5, file_signature_depth = 5\<rparr>) 6)"
proof -
  have stop: "get_data_size_from_depth_limit
      (new_FileContext (Some \<lparr>file_type_depth = 5, file_signature_depth = 5\<rparr>) 6)
      SNORT_FILE_SHA256 3 <s 0"
    by (simp add: get_data_size_from_depth_limit_def depth_limit_def new_FileContext_def
        word_sless_alt)
  show ?thesis
    using stop file_signature_sha256_stop[OF stop, of absorbed "''abc''" SNORT_FILE_END]
    by blast
qed

text \<open>
  Claim C7, as the code has it. A chunk that is not terminal (Start, Middle or any other
  position), and any chunk for which the limiter signals stop, leaves the stored
  signature as it is. A terminal chunk that the limiter lets through stores the digest
  of the context it has fed, whether a signature was stored before or not: End of the
  digest in progress, Whole of a new digest.
\<close>

theorem final_signature_written_by_terminal_chunks:
  "(pos \<noteq> SNORT_FILE_END \<and> pos \<noteq> SNORT_FILE_FULL
      \<or> get_data_size_from_depth_limit ctx SNORT_FILE_SHA256 n <s 0 \<longrightarrow>
     map_option sha256 (file_signature_sha256 dg (Some ctx) d n pos) = Some (sha256 ctx))
   \<and> (\<not> get_data_size_from_depth_limit ctx SNORT_FILE_SHA256 n <s 0 \<longrightarrow>
       map_option sha256 (file_signature_sha256 dg (Some ctx) d n SNORT_FILE_END)
         = Some (Some (dg (SHA256UPDATE (signature_context_or_alloc ctx) d
              (get_data_size_from_depth_limit ctx SNORT_FILE_SHA256 n))))
       \<and> map_option sha256 (file_signature_sha256 dg (Some ctx) d n SNORT_FILE_FULL)
         = Some (Some (dg (SHA256UPDATE (SHA256INIT SnortAlloc_SHA256CONTEXT) d
              (get_data_size_from_depth_limit ctx SNORT_FILE_SHA256 n)))))"
  by (cases pos)
     (auto simp: file_signature_sha256_def Let_def SHA256FINAL_def split: prod.splits)

text \<open>After a Whole chunk \<open>a\<close> has stored a signature, a Start chunk leaves it.\<close>

theorem final_signature_written_by_terminal_chunks_witness:
  "map_option sha256
     (file_signature_sha256 absorbed
        (Some ((new_FileContext None 0)\<lparr>sha256 := Some ''a''\<rparr>)) ''b'' 1 SNORT_FILE_START)
     = Some (Some ''a'')"
  using final_signature_written_by_terminal_chunks[of SNORT_FILE_START
      "(new_FileContext None 0)\<lparr>sha256 := Some ''a''\<rparr>" 1 absorbed "''b''"]
  by simp

text \<open>
  Claim C7 as stated fails for a further terminal chunk: with the digest that returns
  the bytes fed, a Whole chunk \<open>a\<close> stores \<open>a\<close>, and a second Whole chunk \<open>b\<close> on the
  same context replaces it by \<open>b\<close>.
\<close>

theorem final_signature_overwritten:
  "map_option sha256 (feed_signature absorbed (Some (new_FileContext None 0))
       [(''a'', SNORT_FILE_FULL)]) = Some (Some ''a'')
   \<and> map_option sha256 (feed_signature absorbed (Some (new_FileContext None 0))
       [(''a'', SNORT_FILE_FULL), (''b'', SNORT_FILE_FULL)]) = Some (Some ''b'')"
  by (simp add: file_signature_sha256_def new_FileContext_def get_data_size_from_depth_limit_def
      SHA256FINAL_def SHA256UPDATE_def SHA256INIT_def SnortAlloc_SHA256CONTEXT_def word_sless_alt)

subsection \<open>The signature of a stream of chunks\<close>

lemma passesD:
  assumes "passes c chunk"
  shows "length chunk < 2 ^ 31"
    and "get_data_size_from_depth_limit c SNORT_FILE_SHA256 (of_nat (length chunk))
       = of_nat (length chunk)"
  using assms unfolding passes_def by blast+

lemma passes_frame:
  "file_config c' = file_config c \<Longrightarrow> processed_bytes c' = processed_bytes c \<Longrightarrow>
     passes c' chunk = passes c chunk"
  using limiter_frame[of c' c SNORT_FILE_SHA256 "of_nat (length chunk)"]
  by (simp add: passes_def)

text \<open>One call for each position, on a chunk that the limiter lets through.\<close>

lemma step_start:
  assumes "passes c chunk"
  shows "file_signature_sha256 dg (Some c) chunk (of_nat (length chunk)) SNORT_FILE_START
    = Some (c\<lparr>file_signature_context :=
         Some \<lparr>initialised = True, absorbed = chunk, finalised = False\<rparr>\<rparr>)"
proof -
  note g = passesD(2)[OF assms] and cs = chunk_size[OF passesD(1)[OF assms]]
  show ?thesis
    by (simp add: file_signature_sha256_def g cs SHA256UPDATE_def SHA256INIT_def)
qed

lemma step_middle:
  assumes "passes c chunk" "file_signature_context c = Some sc"
  shows "file_signature_sha256 dg (Some c) chunk (of_nat (length chunk)) SNORT_FILE_MIDDLE
    = Some (c\<lparr>file_signature_context := Some (sc\<lparr>absorbed := absorbed sc @ chunk\<rparr>)\<rparr>)"
proof -
  note g = passesD(2)[OF assms(1)] and cs = chunk_size[OF passesD(1)[OF assms(1)]]
  show ?thesis
    by (simp add: file_signature_sha256_def g cs SHA256UPDATE_def
        signature_context_or_alloc_def assms(2))
qed

lemma step_end:
  assumes "passes c chunk" "file_signature_context c = Some sc"
  shows "file_signature_sha256 dg (Some c) chunk (of_nat (length chunk)) SNORT_FILE_END
    = Some (c\<lparr>file_signature_context :=
               Some (sc\<lparr>absorbed := absorbed sc @ chunk, finalised := True\<rparr>),
             sha256 := Some (dg (sc\<lparr>absorbed := absorbed sc @ chunk\<rparr>))\<rparr>)"
proof -
  note g = passesD(2)[OF assms(1)] and cs = chunk_size[OF passesD(1)[OF assms(1)]]
  show ?thesis
    by (simp add: file_signature_sha256_def g cs SHA256UPDATE_def SHA256FINAL_def
        signature_context_or_alloc_def assms(2))
qed

lemma step_full:
  assumes "passes c chunk"
  shows "file_signature_sha256 dg (Some c) chunk (of_nat (length chunk)) SNORT_FILE_FULL
    = Some (c\<lparr>file_signature_context :=
               Some \<lparr>initialised = True, absorbed = chunk, finalised = True\<rparr>,
             sha256 := Some (dg \<lparr>initialised = True, absorbed = chunk, finalised = False\<rparr>)\<rparr>)"
proof -
  note g = passesD(2)[OF assms] and cs = chunk_size[OF passesD(1)[OF assms]]
  show ?thesis
    by (simp add: file_signature_sha256_def g cs SHA256UPDATE_def SHA256FINAL_def
        SHA256INIT_def)
qed

text \<open>Middle chunks and the End chunk, from any digest in progress: by induction on the
  Middle chunks, the digest in progress generalised.\<close>

lemma feed_middles_end:
  assumes "\<forall>m \<in> set ms. passes c m" "passes c e" "file_signature_context c = Some sc"
  shows "map_option sha256
           (feed_signature dg (Some c)
              (map (\<lambda>m. (m, SNORT_FILE_MIDDLE)) ms @ [(e, SNORT_FILE_END)]))
         = Some (Some (dg (sc\<lparr>absorbed := absorbed sc @ concat ms @ e\<rparr>)))"
  using assms
proof (induction ms arbitrary: c sc)
  case Nil
  then show ?case by (simp add: step_end)
next
  case (Cons m ms)
  let ?c = "c\<lparr>file_signature_context := Some (sc\<lparr>absorbed := absorbed sc @ m\<rparr>)\<rparr>"
  have st: "file_signature_sha256 dg (Some c) m (of_nat (length m)) SNORT_FILE_MIDDLE = Some ?c"
    using Cons.prems by (simp add: step_middle)
  have "\<forall>x \<in> set ms. passes ?c x" "passes ?c e"
    using Cons.prems by (simp_all add: passes_frame[of ?c c])
  then have "map_option sha256
           (feed_signature dg (Some ?c)
              (map (\<lambda>m. (m, SNORT_FILE_MIDDLE)) ms @ [(e, SNORT_FILE_END)]))
         = Some (Some (dg ((sc\<lparr>absorbed := absorbed sc @ m\<rparr>)
               \<lparr>absorbed := absorbed (sc\<lparr>absorbed := absorbed sc @ m\<rparr>) @ concat ms @ e\<rparr>)))"
    by (intro Cons.IH) simp_all
  then show ?case using st by simp
qed

text \<open>
  Claim C6. With no depth limit in effect for the chunks, the signature stored after one
  Whole chunk equals the signature stored after the same bytes as one Start chunk, any
  number of Middle chunks and one End chunk; both are the digest of a digest context
  that was initialised and fed exactly these bytes.
\<close>

theorem signature_whole_eq_chunks:
  assumes "\<forall>c \<in> set ((s @ concat ms @ e) # s # e # ms). passes ctx c"
  shows "map_option sha256
           (feed_signature dg (Some ctx)
              ((s, SNORT_FILE_START) # map (\<lambda>m. (m, SNORT_FILE_MIDDLE)) ms
                 @ [(e, SNORT_FILE_END)]))
         = map_option sha256
             (feed_signature dg (Some ctx) [(s @ concat ms @ e, SNORT_FILE_FULL)])
       \<and> map_option sha256
             (feed_signature dg (Some ctx) [(s @ concat ms @ e, SNORT_FILE_FULL)])
         = Some (Some (dg \<lparr>initialised = True, absorbed = s @ concat ms @ e,
                          finalised = False\<rparr>))"
proof -
  have p: "passes ctx (s @ concat ms @ e)" "passes ctx s" "passes ctx e"
    "\<forall>m \<in> set ms. passes ctx m"
    using assms by simp_all
  let ?c = "ctx\<lparr>file_signature_context :=
         Some \<lparr>initialised = True, absorbed = s, finalised = False\<rparr>\<rparr>"
  have "\<forall>m \<in> set ms. passes ?c m" "passes ?c e"
    using p by (simp_all add: passes_frame[of ?c ctx])
  then have "map_option sha256
           (feed_signature dg (Some ?c)
              (map (\<lambda>m. (m, SNORT_FILE_MIDDLE)) ms @ [(e, SNORT_FILE_END)]))
         = Some (Some (dg (\<lparr>initialised = True, absorbed = s, finalised = False\<rparr>
               \<lparr>absorbed := absorbed \<lparr>initialised = True, absorbed = s, finalised = False\<rparr>
                   @ concat ms @ e\<rparr>)))"
    by (intro feed_middles_end) simp_all
  then have chunks: "map_option sha256
           (feed_signature dg (Some ctx)
              ((s, SNORT_FILE_START) # map (\<lambda>m. (m, SNORT_FILE_MIDDLE)) ms
                 @ [(e, SNORT_FILE_END)]))
      = Some (Some (dg \<lparr>initialised = True, absorbed = s @ concat ms @ e,
                       finalised = False\<rparr>))"
    using p(2) by (simp add: step_start)
  have whole: "map_option sha256
             (feed_signature dg (Some ctx) [(s @ concat ms @ e, SNORT_FILE_FULL)])
      = Some (Some (dg \<lparr>initialised = True, absorbed = s @ concat ms @ e,
                       finalised = False\<rparr>))"
    using step_full[OF p(1), of dg] by simp
  show ?thesis unfolding chunks whole by simp
qed

text \<open>The bytes \<open>abcde\<close> as one Whole chunk and as the chunks \<open>ab\<close>, \<open>c\<close>, \<open>d\<close>, \<open>e\<close>, on a
  context without configuration and with the digest that returns the bytes fed.\<close>

theorem signature_whole_eq_chunks_witness:
  "passes (new_FileContext None 0) ''abcde'' \<and> passes (new_FileContext None 0) ''ab''
   \<and> passes (new_FileContext None 0) ''c'' \<and> passes (new_FileContext None 0) ''d''
   \<and> passes (new_FileContext None 0) ''e''
   \<and> map_option sha256
       (feed_signature absorbed (Some (new_FileContext None 0))
          ((''ab'', SNORT_FILE_START) # map (\<lambda>m. (m, SNORT_FILE_MIDDLE)) [''c'', ''d'']
             @ [(''e'', SNORT_FILE_END)]))
     = Some (Some ''abcde'')"
proof -
  have h: "\<forall>c \<in> set ((''ab'' @ concat [''c'', ''d''] @ ''e'') # ''ab'' # ''e'' # [''c'', ''d'']).
      passes (new_FileContext None 0) c"
    by (simp add: passes_def get_data_size_from_depth_limit_def new_FileContext_def)
  show ?thesis
    using h signature_whole_eq_chunks[OF h, of absorbed]
    by simp
qed

end
